theory Spec2Isabelle
  imports Complex_Main "HOL-Library.Multiset"
begin

section \<open>Wassermelder: the statistics of \<open>calculateStats\<close> (server.js)\<close>

text \<open>
  The development embeds the function \<open>calculateStats\<close> of \<open>server.js\<close> and the
  parts of the JavaScript runtime it calls.

  Conventions of the embedding:
  \<^item> a JavaScript number is an exact rational (\<open>rat\<close>) or, where the code only holds
    whole numbers of milliseconds, an \<open>int\<close>; the rounding error of doubles is not
    modelled;
  \<^item> \<open>new Date(r.date)\<close> is the field \<open>date\<close> of a reading, in milliseconds since the
    epoch (every stored date string is taken to parse);
  \<^item> \<open>new Date()\<close>, the wall clock read inside the function, is the parameter \<open>now\<close>;
  \<^item> the local time zone of the process is UTC, so that the local-time constructor
    \<open>new Date(y, m, d)\<close> and \<open>getFullYear\<close>/\<open>getMonth\<close> work on UTC days;
  \<^item> a formatted label (\<open>toLocaleDateString\<close>) is represented by the date it formats;
  \<^item> reading a property of \<open>undefined\<close> throws; the throw is the value \<open>Inl TypeError\<close>.
\<close>

subsection \<open>Data\<close>

text \<open>A stored reading, as \<open>POST /api/reading\<close> writes it. The fields \<open>id\<close>,
  \<open>value\<close> and \<open>notes\<close> are named \<open>rid\<close>, \<open>val\<close> and \<open>rnotes\<close>.\<close>

record reading =
  rid :: string
  date :: int
  val :: rat
  confidence :: "string option"
  rnotes :: "string option"
  image :: "string option"

text \<open>The object \<open>lastInterval\<close>.\<close>

record lastInterval =
  li_days :: rat
  li_liters :: rat
  li_litersPerDay :: rat
  li_startDate :: int
  li_endDate :: int

text \<open>The object \<open>yearStats\<close>.\<close>

record yearStats =
  ys_totalLiters :: int
  ys_avgLitersPerDay :: rat
  ys_days :: int

text \<open>An entry of \<open>monthlyData\<close>; \<open>m_month\<close> is the date whose month and year the
  label shows, \<open>None\<close> is \<open>null\<close>.\<close>

record monthEntry =
  m_month :: int
  m_litersPerDay :: "rat option"

text \<open>An entry of \<open>weeklyData\<close>; \<open>w_week\<close> is the date whose day and month the label
  shows.\<close>

record weekEntry =
  w_week :: int
  w_litersPerDay :: "rat option"

text \<open>The object \<open>calculateStats\<close> returns.\<close>

record stats =
  st_lastInterval :: "lastInterval option"
  st_yearStats :: "yearStats option"
  st_monthlyData :: "monthEntry list"
  st_weeklyData :: "weekEntry list"

datatype error = TypeError

subsection \<open>The runtime: numbers, arrays and dates\<close>

text \<open>\<open>1000 * 60 * 60 * 24\<close>, the milliseconds of a day.\<close>

definition msPerDay :: int where
  "msPerDay = 1000 * 60 * 60 * 24"

text \<open>\<open>Math.round\<close>: the nearest integer, a half rounding up.\<close>

definition Math_round :: "rat \<Rightarrow> int" where
  "Math_round x = \<lfloor>x + 1 / 2\<rfloor>"

text \<open>The idiom \<open>Math.round(x * 10) / 10\<close>.\<close>

definition round1 :: "rat \<Rightarrow> rat" where
  "round1 x = of_int (Math_round (x * 10)) / 10"

text \<open>\<open>(new Date(b) - new Date(a)) / (1000 * 60 * 60 * 24)\<close> on two timestamps.\<close>

definition daysBetween :: "int \<Rightarrow> int \<Rightarrow> rat" where
  "daysBetween a b = of_int (b - a) / of_int msPerDay"

text \<open>\<open>arr[i]\<close> followed by a property read: outside the array the index gives
  \<open>undefined\<close> and the property read throws. Every indexed element of
  \<open>calculateStats\<close> has its \<open>date\<close> read at once.\<close>

definition elem :: "'a list \<Rightarrow> int \<Rightarrow> error + 'a" where
  "elem xs i = (if 0 \<le> i \<and> i < int (length xs) then Inr (xs ! nat i) else Inl TypeError)"

text \<open>Days since the epoch of a civil date (month \<open>1..12\<close>) and back, in the
  proleptic Gregorian calendar.\<close>

definition days_from_civil :: "int \<Rightarrow> int \<Rightarrow> int \<Rightarrow> int" where
  "days_from_civil y m d =
     (let y' = (if m \<le> 2 then y - 1 else y);
          era = y' div 400;
          yoe = y' - era * 400;
          doy = (153 * (if m > 2 then m - 3 else m + 9) + 2) div 5 + d - 1;
          doe = yoe * 365 + yoe div 4 - yoe div 100 + doy
      in era * 146097 + doe - 719468)"

definition civil_from_days :: "int \<Rightarrow> int \<times> int \<times> int" where
  "civil_from_days z0 =
     (let z = z0 + 719468;
          era = z div 146097;
          doe = z - era * 146097;
          yoe = (doe - doe div 1460 + doe div 36524 - doe div 146096) div 365;
          doy = doe - (365 * yoe + yoe div 4 - yoe div 100);
          mp = (5 * doy + 2) div 153;
          d = doy - (153 * mp + 2) div 5 + 1;
          m = (if mp < 10 then mp + 3 else mp - 9);
          y = yoe + era * 400
      in (if m \<le> 2 then y + 1 else y, m, d))"

text \<open>\<open>getFullYear\<close> and \<open>getMonth\<close> (months count from 0).\<close>

definition getFullYear :: "int \<Rightarrow> int" where
  "getFullYear t = fst (civil_from_days (t div msPerDay))"

definition getMonth :: "int \<Rightarrow> int" where
  "getMonth t = fst (snd (civil_from_days (t div msPerDay))) - 1"

text \<open>\<open>new Date(y, m, d)\<close>: midnight of day \<open>d\<close> of month \<open>m\<close> (from 0) of year
  \<open>y\<close>. A month outside \<open>0..11\<close> carries into the year, day 0 is the last day
  of the month before, and a year \<open>0..99\<close> means \<open>1900 + y\<close>.\<close>

definition newDate :: "int \<Rightarrow> int \<Rightarrow> int \<Rightarrow> int" where
  "newDate y m d =
     (let yr = (if 0 \<le> y \<and> y \<le> 99 then 1900 + y else y);
          ym = yr + m div 12;
          mn = m mod 12
      in (days_from_civil ym (mn + 1) 1 + d - 1) * msPerDay)"

subsection \<open>The stages of \<open>calculateStats\<close>\<close>

text \<open>A statement that may throw, followed by the rest of the block: the throw
  leaves the function.\<close>

definition andThen :: "error + 'a \<Rightarrow> ('a \<Rightarrow> error + 'b) \<Rightarrow> error + 'b" where
  "andThen m f = (case m of Inl e \<Rightarrow> Inl e | Inr x \<Rightarrow> f x)"

text \<open>Lines 120 to 133: the last interval, from the last two entries of the array
  \<open>sorted\<close>, here \<open>srt\<close>.\<close>

definition lastIntervalOf :: "reading list \<Rightarrow> error + lastInterval" where
  "lastIntervalOf srt =
     andThen (elem srt (int (length srt) - 1)) (\<lambda>lastReading.
     andThen (elem srt (int (length srt) - 2)) (\<lambda>prevReading.
       let lastIntervalDays = daysBetween (date prevReading) (date lastReading);
           lastConsumption = (val lastReading - val prevReading) * 1000;
           lastConsumptionPerDay =
             (if lastIntervalDays > 0 then lastConsumption / lastIntervalDays else 0)
       in Inr \<lparr> li_days = round1 lastIntervalDays,
                li_liters = round1 lastConsumption,
                li_litersPerDay = round1 lastConsumptionPerDay,
                li_startDate = date prevReading,
                li_endDate = date lastReading \<rparr>))"

text \<open>Lines 136 to 152: the statistics of the current year.\<close>

definition startOfYear :: "int \<Rightarrow> int" where
  "startOfYear now = newDate (getFullYear now) 0 1"

definition yearStatsOf :: "int \<Rightarrow> reading list \<Rightarrow> error + yearStats option" where
  "yearStatsOf now srt =
     (let yearReadings = filter (\<lambda>r. date r \<ge> startOfYear now) srt
      in if length yearReadings \<ge> 2 then
           andThen (elem yearReadings 0) (\<lambda>firstYearReading.
           andThen (elem yearReadings (int (length yearReadings) - 1)) (\<lambda>lastYearReading.
             let yearDays = daysBetween (date firstYearReading) (date lastYearReading);
                 yearConsumption = (val lastYearReading - val firstYearReading) * 1000
             in Inr (Some \<lparr> ys_totalLiters = Math_round yearConsumption,
                            ys_avgLitersPerDay =
                              (if yearDays > 0 then round1 (yearConsumption / yearDays) else 0),
                            ys_days = Math_round yearDays \<rparr>)))
         else Inr None)"

text \<open>Lines 157 to 187: the body of the loop over the months, for the loop
  variable \<open>i\<close>. The array \<open>monthReadings\<close> is built and never read; it is left out.
  The pair is the value of the variables \<open>consumption\<close> and \<open>days\<close> at line 184.\<close>

definition monthDate :: "int \<Rightarrow> int \<Rightarrow> int" where
  "monthDate now i = newDate (getFullYear now) (getMonth now - i) 1"

definition monthEnd :: "int \<Rightarrow> int \<Rightarrow> int" where
  "monthEnd now i =
     newDate (getFullYear (monthDate now i)) (getMonth (monthDate now i) + 1) 0"

definition monthEntryOf :: "int \<Rightarrow> reading list \<Rightarrow> int \<Rightarrow> error + monthEntry" where
  "monthEntryOf now srt i =
     (let readingsBefore = filter (\<lambda>r. date r < monthDate now i) srt;
          readingsInOrBefore = filter (\<lambda>r. date r \<le> monthEnd now i) srt
      in andThen
           (if length readingsBefore > 0 \<and> length readingsInOrBefore > length readingsBefore
            then
              andThen (elem readingsBefore (int (length readingsBefore) - 1))
                (\<lambda>startReading.
              andThen (elem readingsInOrBefore (int (length readingsInOrBefore) - 1))
                (\<lambda>endReading.
                if date endReading > date startReading then
                  Inr ((val endReading - val startReading) * 1000,
                       daysBetween (date startReading) (date endReading))
                else Inr (0, 0)))
            else Inr (0, 0))
           (\<lambda>(consumption, days).
              Inr \<lparr> m_month = monthDate now i,
                    m_litersPerDay =
                      (if days > 0 then Some (round1 (consumption / days)) else None) \<rparr>))"

text \<open>Lines 156 and 184: \<open>for (let i = 11; i >= 0; i--)\<close>, pushing one entry a turn.
  The third argument is \<open>i + 1\<close>.\<close>

fun monthlyLoop :: "int \<Rightarrow> reading list \<Rightarrow> nat \<Rightarrow> monthEntry list \<Rightarrow> error + monthEntry list"
  where
  "monthlyLoop now srt 0 monthlyData = Inr monthlyData"
| "monthlyLoop now srt (Suc i) monthlyData =
     andThen (monthEntryOf now srt (int i))
       (\<lambda>entry. monthlyLoop now srt i (monthlyData @ [entry]))"

text \<open>Lines 196 to 220: the body of the loop over the weeks. The values \<open>oneYear\<close>
  and \<open>yearAgo\<close> are computed and never read; they are left out.\<close>

definition weekStart :: "int \<Rightarrow> int \<Rightarrow> int" where
  "weekStart now i = now - (i + 1) * 7 * 24 * 60 * 60 * 1000"

definition weekEnd :: "int \<Rightarrow> int \<Rightarrow> int" where
  "weekEnd now i = now - i * 7 * 24 * 60 * 60 * 1000"

definition weekEntryOf :: "int \<Rightarrow> reading list \<Rightarrow> int \<Rightarrow> error + weekEntry" where
  "weekEntryOf now srt i =
     (let readingsBefore = filter (\<lambda>r. date r \<le> weekStart now i) srt;
          readingsAfter = filter (\<lambda>r. date r \<le> weekEnd now i) srt
      in andThen
           (if length readingsBefore > 0 \<and> length readingsAfter > length readingsBefore
            then
              andThen (elem readingsBefore (int (length readingsBefore) - 1))
                (\<lambda>startReading.
              andThen (elem readingsAfter (int (length readingsAfter) - 1))
                (\<lambda>endReading.
                let days = daysBetween (date startReading) (date endReading);
                    consumption = (val endReading - val startReading) * 1000
                in if days > 0 then Inr (Some (round1 (consumption / days))) else Inr None))
            else Inr None)
           (\<lambda>litersPerDay.
              Inr \<lparr> w_week = weekStart now i, w_litersPerDay = litersPerDay \<rparr>))"

fun weeklyLoop :: "int \<Rightarrow> reading list \<Rightarrow> nat \<Rightarrow> weekEntry list \<Rightarrow> error + weekEntry list"
  where
  "weeklyLoop now srt 0 weeklyData = Inr weeklyData"
| "weeklyLoop now srt (Suc i) weeklyData =
     andThen (weekEntryOf now srt (int i))
       (\<lambda>entry. weeklyLoop now srt i (weeklyData @ [entry]))"

subsection \<open>\<open>calculateStats\<close>\<close>

text \<open>Lines 120 to 228, everything after the sort: the four results in the order
  the code computes them.\<close>

definition statsOfSorted :: "int \<Rightarrow> reading list \<Rightarrow> error + stats" where
  "statsOfSorted now srt =
     andThen (lastIntervalOf srt) (\<lambda>lastInterval.
     andThen (yearStatsOf now srt) (\<lambda>yearStats.
     andThen (monthlyLoop now srt 12 []) (\<lambda>monthlyData.
     andThen (weeklyLoop now srt 52 []) (\<lambda>weeklyData.
       Inr \<lparr> st_lastInterval = Some lastInterval,
             st_yearStats = yearStats,
             st_monthlyData = monthlyData,
             st_weeklyData = weeklyData \<rparr>))))"

text \<open>Line 118: \<open>[...readings].sort((a, b) => new Date(a.date) - new Date(b.date))\<close>,
  as a value: the stable sort by \<open>date\<close>, ascending.\<close>

definition sortByDate :: "reading list \<Rightarrow> reading list" where
  "sortByDate readings = sort_key date readings"

text \<open>Lines 108 to 115: the result for fewer than two readings.\<close>

definition noStats :: stats where
  "noStats = \<lparr> st_lastInterval = None, st_yearStats = None,
               st_monthlyData = [], st_weeklyData = [] \<rparr>"

text \<open>The function on the content of its argument.\<close>

definition calculateStats :: "int \<Rightarrow> reading list \<Rightarrow> error + stats" where
  "calculateStats now readings =
     (if length readings < 2 then Inr noStats
      else statsOfSorted now (sortByDate readings))"

subsection \<open>The bucket rule in the words of the specification\<close>

text \<open>The rate between two readings: the difference of the values in litres over
  the elapsed days, to one decimal.\<close>

definition rateBetween :: "reading \<Rightarrow> reading \<Rightarrow> rat" where
  "rateBetween a b = round1 ((val b - val a) * 1000 / daysBetween (date a) (date b))"

text \<open>The position of the latest reading, in the order of the list, whose timestamp
  satisfies \<open>P\<close>; \<open>None\<close> when no reading does.\<close>

definition latestIdx :: "(int \<Rightarrow> bool) \<Rightarrow> reading list \<Rightarrow> nat option" where
  "latestIdx P srt =
     (let js = filter (\<lambda>j. P (date (srt ! j))) [0..<length srt]
      in if js = [] then None else Some (last js))"

text \<open>A bucket whose \<open>before\<close> is the latest reading with \<open>atStart\<close> and whose
  \<open>through\<close> is the latest reading with \<open>atEnd\<close>: it has a rate exactly when
  \<open>before\<close> exists and \<open>through\<close> is a strictly later reading of the list.\<close>

definition specBucket ::
  "(int \<Rightarrow> bool) \<Rightarrow> (int \<Rightarrow> bool) \<Rightarrow> reading list \<Rightarrow> rat option" where
  "specBucket atStart atEnd srt =
     (case latestIdx atStart srt of
        None \<Rightarrow> None
      | Some b \<Rightarrow>
          (case latestIdx atEnd srt of
             None \<Rightarrow> None
           | Some t \<Rightarrow> if b < t then Some (rateBetween (srt ! b) (srt ! t)) else None))"

text \<open>A condition on timestamps that holds of every earlier timestamp once it holds
  of one.\<close>

definition downward :: "(int \<Rightarrow> bool) \<Rightarrow> bool" where
  "downward P \<longleftrightarrow> (\<forall>a b. a \<le> b \<longrightarrow> P b \<longrightarrow> P a)"

subsection \<open>The results where nothing throws\<close>

text \<open>The four results as plain values of the sorted list. The section on
  properties shows that \<open>calculateStats\<close> returns them and never throws.\<close>

definition lastIntervalVal :: "reading list \<Rightarrow> lastInterval" where
  "lastIntervalVal srt =
     (let prevReading = srt ! (length srt - 2);
          lastReading = last srt;
          days = daysBetween (date prevReading) (date lastReading);
          liters = (val lastReading - val prevReading) * 1000
      in \<lparr> li_days = round1 days,
            li_liters = round1 liters,
            li_litersPerDay = round1 (if days > 0 then liters / days else 0),
            li_startDate = date prevReading,
            li_endDate = date lastReading \<rparr>)"

definition yearStatsVal :: "int \<Rightarrow> reading list \<Rightarrow> yearStats option" where
  "yearStatsVal now srt =
     (let yearReadings = filter (\<lambda>r. startOfYear now \<le> date r) srt;
          days = daysBetween (date (hd yearReadings)) (date (last yearReadings));
          liters = (val (last yearReadings) - val (hd yearReadings)) * 1000
      in if length yearReadings < 2 then None
         else Some \<lparr> ys_totalLiters = Math_round liters,
                     ys_avgLitersPerDay = (if days > 0 then round1 (liters / days) else 0),
                     ys_days = Math_round days \<rparr>)"

definition monthEntryVal :: "int \<Rightarrow> reading list \<Rightarrow> int \<Rightarrow> monthEntry" where
  "monthEntryVal now srt i =
     \<lparr> m_month = monthDate now i,
       m_litersPerDay =
         specBucket (\<lambda>d. d < monthDate now i) (\<lambda>d. d \<le> monthEnd now i) srt \<rparr>"

definition weekEntryVal :: "int \<Rightarrow> reading list \<Rightarrow> int \<Rightarrow> weekEntry" where
  "weekEntryVal now srt i =
     \<lparr> w_week = weekStart now i,
       w_litersPerDay =
         specBucket (\<lambda>d. d \<le> weekStart now i) (\<lambda>d. d \<le> weekEnd now i) srt \<rparr>"

definition statsVal :: "int \<Rightarrow> reading list \<Rightarrow> stats" where
  "statsVal now srt =
     \<lparr> st_lastInterval = Some (lastIntervalVal srt),
       st_yearStats = yearStatsVal now srt,
       st_monthlyData = map (\<lambda>i. monthEntryVal now srt (int i)) (rev [0..<12]),
       st_weeklyData = map (\<lambda>i. weekEntryVal now srt (int i)) (rev [0..<52]) \<rparr>"

subsection \<open>Concrete inputs\<close>

text \<open>The timestamp of the date string \<open>y-m-d\<close>: midnight UTC of that day.\<close>

definition isoDate :: "int \<Rightarrow> int \<Rightarrow> int \<Rightarrow> int" where
  "isoDate y m d = days_from_civil y m d * msPerDay"

text \<open>A reading that has only a timestamp and a value.\<close>

definition mkReading :: "int \<Rightarrow> rat \<Rightarrow> reading" where
  "mkReading t v =
     \<lparr> rid = [], date = t, val = v, confidence = None, rnotes = None, image = None \<rparr>"

text \<open>The scenario of one year between two readings, seen on 2025-01-01.\<close>

definition yearScenario :: "reading list" where
  "yearScenario = [mkReading (isoDate 2024 1 1) 0, mkReading (isoDate 2024 12 31) 365]"

text \<open>The scenario of 3 cubic metres in the 31 days of January 2024.\<close>

definition januaryScenario :: "reading list" where
  "januaryScenario = [mkReading (isoDate 2024 1 1) 100, mkReading (isoDate 2024 2 1) 103]"



text \<open>Three readings, two of them at one timestamp, in two orders.\<close>

definition shuffleScenario :: "reading list" where
  "shuffleScenario =
     [mkReading (isoDate 2024 1 1) 0, mkReading (isoDate 2024 2 1) 5,
      mkReading (isoDate 2024 2 1) 7]"

definition shuffledScenario :: "reading list" where
  "shuffledScenario =
     [mkReading (isoDate 2024 1 1) 0, mkReading (isoDate 2024 2 1) 7,
      mkReading (isoDate 2024 2 1) 5]"


text \<open>The two readings of January 2024 as the server stores them, with an
  identifier, a confidence, notes and an image.\<close>

definition storedScenario :: "reading list" where
  "storedScenario =
     [\<lparr> rid = ''1704103200000'', date = isoDate 2024 1 1, val = 100,
         confidence = Some ''high'', rnotes = Some ''clear'',
         image = Some ''photo_2024-01-01_10-00-00.jpg'' \<rparr>,
      \<lparr> rid = ''1706781600000'', date = isoDate 2024 2 1, val = 103,
         confidence = Some ''manual'', rnotes = Some ''Manually entered'',
         image = None \<rparr>]"

subsection \<open>Readings without their metadata\<close>

text \<open>The timestamp and the value of a reading, and nothing else.\<close>

definition strip :: "reading \<Rightarrow> reading" where
  "strip r = mkReading (date r) (val r)"

subsection \<open>\<open>calculateStats\<close> on arrays in a store\<close>

text \<open>An array is a reference into a store of arrays; the store is the list of the
  arrays allocated so far, and a reference is a position in it. Only the operations
  that allocate or write are store transformers: the spread \<open>[...arr]\<close> allocates
  a new array with the elements of \<open>arr\<close>, and \<open>arr.sort(cmp)\<close> sorts \<open>arr\<close> in place
  and returns \<open>arr\<close>. The other array operations of \<open>calculateStats\<close> (\<open>length\<close>, the
  index and \<open>filter\<close>) only read their receiver; their results are values.\<close>

type_synonym store = "reading list list"

definition spread :: "nat \<Rightarrow> store \<Rightarrow> nat \<times> store" where
  "spread arr h = (length h, h @ [h ! arr])"

definition sortInPlace :: "nat \<Rightarrow> store \<Rightarrow> nat \<times> store" where
  "sortInPlace arr h = (arr, h[arr := sort_key date (h ! arr)])"

text \<open>Lines 107 to 229 on the reference \<open>readings\<close>: the early return, then the
  sort of the spread copy, then the stages on the array \<open>sorted\<close>.\<close>

definition calculateStatsIn :: "int \<Rightarrow> nat \<Rightarrow> store \<Rightarrow> (error + stats) \<times> store" where
  "calculateStatsIn now readings h =
     (if length (h ! readings) < 2 then (Inr noStats, h)
      else
        let (copy, h1) = spread readings h;
            (srt, h2) = sortInPlace copy h1
        in (statsOfSorted now (h2 ! srt), h2))"

section \<open>Properties\<close>

subsection \<open>The calendar on examples\<close>

text \<open>The model of \<open>Date\<close> at some dates: the turn of a year, a leap February, the
  carry of a negative month, day 0, and a year below 100.\<close>

lemma calendar_examples:
  "getFullYear (isoDate 2025 1 1) = 2025"
  "getMonth (isoDate 2025 1 1) = 0"
  "getFullYear (isoDate 2025 1 1 - 1) = 2024"
  "getMonth (isoDate 2025 1 1 - 1) = 11"
  "startOfYear (isoDate 2024 6 2) = isoDate 2024 1 1"
  "monthDate (isoDate 2025 1 1) 0 = isoDate 2025 1 1"
  "monthEnd (isoDate 2025 1 1) 0 = isoDate 2025 1 31"
  "monthDate (isoDate 2025 1 1) 11 = isoDate 2024 2 1"
  "monthEnd (isoDate 2025 1 1) 11 = isoDate 2024 2 29"
  "newDate 99 0 1 = isoDate 1999 1 1"
  "isoDate 1970 1 1 = 0"
  by code_simp+

subsection \<open>Throws and array reads\<close>

lemma andThen_Inr: "andThen (Inr x) f = f x"
  by (simp add: andThen_def)

lemma andThen_Inl: "andThen (Inl e) f = Inl e"
  by (simp add: andThen_def)

lemma elem_last: "xs \<noteq> [] \<Longrightarrow> elem xs (int (length xs) - 1) = Inr (last xs)"
  by (cases xs rule: rev_cases) (simp_all add: elem_def nat_diff_distrib')

lemma elem_first: "xs \<noteq> [] \<Longrightarrow> elem xs 0 = Inr (hd xs)"
  by (cases xs) (simp_all add: elem_def)

lemma elem_prev: "2 \<le> length xs \<Longrightarrow> elem xs (int (length xs) - 2) = Inr (xs ! (length xs - 2))"
  by (simp add: elem_def nat_diff_distrib')

subsection \<open>A condition that holds downward cuts a prefix off a sorted list\<close>

lemma downward_less: "downward (\<lambda>d. d < t)"
  by (auto simp: downward_def)

lemma downward_le: "downward (\<lambda>d. d \<le> t)"
  by (auto simp: downward_def)

lemma filter_sorted_take:
  assumes "sorted (map date srt)" "downward P"
  shows "filter (\<lambda>r. P (date r)) srt = take (length (filter (\<lambda>r. P (date r)) srt)) srt"
  using assms(1)
proof (induction srt)
  case Nil
  then show ?case by simp
next
  case (Cons a srt)
  show ?case
  proof (cases "P (date a)")
    case True
    with Cons show ?thesis by simp
  next
    case False
    have "\<not> P (date r)" if "r \<in> set srt" for r
    proof
      assume "P (date r)"
      moreover have "date a \<le> date r" using Cons.prems that by auto
      ultimately show False using assms(2) False by (auto simp: downward_def)
    qed
    then have "filter (\<lambda>r. P (date r)) srt = []" by (simp add: filter_empty_conv)
    with False show ?thesis by simp
  qed
qed

lemma filter_sorted_nth:
  assumes "sorted (map date srt)" "downward P" "j < length srt"
  shows "P (date (srt ! j)) \<longleftrightarrow> j < length (filter (\<lambda>r. P (date r)) srt)"
proof -
  let ?k = "length (filter (\<lambda>r. P (date r)) srt)"
  have eq: "filter (\<lambda>r. P (date r)) srt = take ?k srt"
    by (rule filter_sorted_take [OF assms(1,2)])
  show ?thesis
  proof
    assume p: "P (date (srt ! j))"
    show "j < ?k"
    proof (rule ccontr)
      assume "\<not> j < ?k"
      have "length (filter (\<lambda>r. P (date r)) (take (Suc j) srt)) \<le> ?k"
        by (metis append_take_drop_id filter_append length_append le_add1)
      moreover have "filter (\<lambda>r. P (date r)) (take (Suc j) srt) = take (Suc j) srt"
      proof (rule filter_True, intro ballI)
        fix r assume "r \<in> set (take (Suc j) srt)"
        then obtain i where i: "i < Suc j" "srt ! i = r" "i < length srt"
          by (auto simp: in_set_conv_nth)
        then have "date r \<le> date (srt ! j)"
          using assms(1,3) sorted_nth_mono [of "map date srt" i j] by auto
        then show "P (date r)" using p assms(2) by (auto simp: downward_def)
      qed
      ultimately show False using \<open>\<not> j < ?k\<close> assms(3) by simp
    qed
  next
    assume "j < ?k"
    then have "srt ! j = take ?k srt ! j" by simp
    also have "\<dots> \<in> set (take ?k srt)"
      using \<open>j < ?k\<close> assms(3) by (intro nth_mem) simp
    finally have "srt ! j \<in> set (filter (\<lambda>r. P (date r)) srt)" using eq by simp
    then show "P (date (srt ! j))" by simp
  qed
qed

subsection \<open>The latest reading that satisfies a condition\<close>

lemma daysBetween_pos: "0 < daysBetween a b \<longleftrightarrow> a < b"
  by (simp add: daysBetween_def msPerDay_def zero_less_divide_iff)

lemma filter_less_upt: "k \<le> n \<Longrightarrow> filter (\<lambda>j. j < k) [0..<n] = [0..<k]"
proof (induction n)
  case 0
  then show ?case by simp
next
  case (Suc n)
  show ?case
  proof (cases "k = Suc n")
    case True
    have "filter (\<lambda>j. j < Suc n) [0..<Suc n] = [0..<Suc n]"
      by (rule filter_True) simp
    with True show ?thesis by simp
  next
    case False
    with Suc show ?thesis by simp
  qed
qed

lemma latestIdx_upt:
  assumes "sorted (map date srt)" "downward P"
  shows "filter (\<lambda>j. P (date (srt ! j))) [0..<length srt]
           = [0..<length (filter (\<lambda>r. P (date r)) srt)]"
proof -
  have "filter (\<lambda>j. P (date (srt ! j))) [0..<length srt]
          = filter (\<lambda>j. j < length (filter (\<lambda>r. P (date r)) srt)) [0..<length srt]"
    by (rule filter_cong [OF refl]) (simp add: filter_sorted_nth [OF assms])
  also have "\<dots> = [0..<length (filter (\<lambda>r. P (date r)) srt)]"
    by (rule filter_less_upt) (rule length_filter_le)
  finally show ?thesis .
qed

lemma latestIdx_sorted:
  assumes "sorted (map date srt)" "downward P"
  shows "latestIdx P srt =
           (if length (filter (\<lambda>r. P (date r)) srt) = 0 then None
            else Some (length (filter (\<lambda>r. P (date r)) srt) - 1))"
proof (cases "length (filter (\<lambda>r. P (date r)) srt)")
  case 0
  then show ?thesis by (simp add: latestIdx_def latestIdx_upt [OF assms])
next
  case (Suc k)
  then show ?thesis by (simp add: latestIdx_def latestIdx_upt [OF assms])
qed

lemma sorted_le_last: "sorted xs \<Longrightarrow> (x::nat) \<in> set xs \<Longrightarrow> x \<le> last xs"
  by (induction xs) auto

lemma latestIdx_Some_iff:
  "latestIdx P srt = Some k \<longleftrightarrow>
     k < length srt \<and> P (date (srt ! k)) \<and> (\<forall>j<length srt. P (date (srt ! j)) \<longrightarrow> j \<le> k)"
proof -
  let ?js = "filter (\<lambda>j. P (date (srt ! j))) [0..<length srt]"
  have srt: "sorted ?js" by (rule sorted_wrt_filter) simp
  have mem: "j \<in> set ?js \<longleftrightarrow> j < length srt \<and> P (date (srt ! j))" for j by auto
  show ?thesis
  proof
    assume "latestIdx P srt = Some k"
    then have ne: "?js \<noteq> []" and k: "k = last ?js"
      by (auto simp: latestIdx_def Let_def split: if_splits)
    from ne have "last ?js \<in> set ?js" by (rule last_in_set)
    then have a: "k < length srt \<and> P (date (srt ! k))" using k mem by simp
    have "j \<le> k" if "j < length srt" "P (date (srt ! j))" for j
    proof -
      from that have "j \<in> set ?js" using mem by simp
      then show ?thesis unfolding k by (rule sorted_le_last [OF srt])
    qed
    with a show "k < length srt \<and> P (date (srt ! k)) \<and> (\<forall>j<length srt. P (date (srt ! j)) \<longrightarrow> j \<le> k)"
      by blast
  next
    assume r: "k < length srt \<and> P (date (srt ! k)) \<and> (\<forall>j<length srt. P (date (srt ! j)) \<longrightarrow> j \<le> k)"
    then have kin: "k \<in> set ?js" using mem by simp
    then have "0 < length ?js" by (rule length_pos_if_in_set)
    then have ne: "?js \<noteq> []" using length_greater_0_conv by blast
    then have "last ?js \<in> set ?js" by (rule last_in_set)
    then have "last ?js \<le> k" using r mem by blast
    moreover have "k \<le> last ?js" using kin by (rule sorted_le_last [OF srt])
    ultimately show "latestIdx P srt = Some k" using ne by (simp add: latestIdx_def Let_def)
  qed
qed

lemma latestIdx_None_iff:
  "latestIdx P srt = None \<longleftrightarrow> (\<forall>r\<in>set srt. \<not> P (date r))"
proof
  assume n: "latestIdx P srt = None"
  show "\<forall>r\<in>set srt. \<not> P (date r)"
  proof
    fix r assume "r \<in> set srt"
    then obtain j where j: "j < length srt" "srt ! j = r"
      by (metis in_set_conv_nth)
    from n have "filter (\<lambda>j. P (date (srt ! j))) [0..<length srt] = []"
      by (simp add: latestIdx_def Let_def split: if_splits)
    then have "\<not> P (date (srt ! j))" using j(1) by (simp add: filter_empty_conv)
    then show "\<not> P (date r)" using j(2) by simp
  qed
next
  assume a: "\<forall>r\<in>set srt. \<not> P (date r)"
  then have "filter (\<lambda>j. P (date (srt ! j))) [0..<length srt] = []"
    by (simp add: filter_empty_conv)
  then show "latestIdx P srt = None" by (simp add: latestIdx_def)
qed

subsection \<open>The stages do not throw\<close>

lemma lastIntervalOf_Inr:
  assumes "2 \<le> length srt"
  shows "lastIntervalOf srt = Inr (lastIntervalVal srt)"
proof -
  from assms have ne: "srt \<noteq> []" by auto
  show ?thesis
    by (simp add: lastIntervalOf_def lastIntervalVal_def elem_last [OF ne] elem_prev [OF assms]
        andThen_Inr Let_def)
qed

lemma yearStatsOf_Inr: "yearStatsOf now srt = Inr (yearStatsVal now srt)"
proof (cases "2 \<le> length (filter (\<lambda>r. startOfYear now \<le> date r) srt)")
  case True
  then have ne: "filter (\<lambda>r. startOfYear now \<le> date r) srt \<noteq> []" by auto
  show ?thesis using True
    by (simp add: yearStatsOf_def yearStatsVal_def elem_last [OF ne] elem_first [OF ne]
        andThen_Inr Let_def)
next
  case False
  then show ?thesis
    by (simp add: yearStatsOf_def yearStatsVal_def Let_def)
qed

lemma bucket_core:
  assumes s: "sorted (map date srt)" and p: "downward P" and q: "downward Q"
  defines "B \<equiv> filter (\<lambda>r. P (date r)) srt" and "T \<equiv> filter (\<lambda>r. Q (date r)) srt"
  shows "specBucket P Q srt =
           (if 0 < length B \<and> length B < length T then Some (rateBetween (last B) (last T))
            else None)"
    and "0 < length B \<Longrightarrow> length B < length T \<Longrightarrow> date (last B) < date (last T)"
proof -
  have Bt: "B = take (length B) srt" unfolding B_def by (rule filter_sorted_take [OF s p])
  have Tt: "T = take (length T) srt" unfolding T_def by (rule filter_sorted_take [OF s q])
  have lB: "length B \<le> length srt" and lT: "length T \<le> length srt"
    unfolding B_def T_def by simp_all
  have lastB: "last B = srt ! (length B - 1)" if "0 < length B"
  proof -
    from that have "B \<noteq> []" by auto
    then have "last B = B ! (length B - 1)" by (rule last_conv_nth)
    also have "\<dots> = take (length B) srt ! (length B - 1)" using Bt by simp
    also have "\<dots> = srt ! (length B - 1)" using that by simp
    finally show ?thesis .
  qed
  have lastT: "last T = srt ! (length T - 1)" if "0 < length T"
  proof -
    from that have "T \<noteq> []" by auto
    then have "last T = T ! (length T - 1)" by (rule last_conv_nth)
    also have "\<dots> = take (length T) srt ! (length T - 1)" using Tt by simp
    also have "\<dots> = srt ! (length T - 1)" using that by simp
    finally show ?thesis .
  qed
  show "specBucket P Q srt =
           (if 0 < length B \<and> length B < length T then Some (rateBetween (last B) (last T))
            else None)"
  proof (cases "0 < length B \<and> length B < length T")
    case True
    then have "length B - 1 < length T - 1" "0 < length T" by linarith+
    with True lastB lastT show ?thesis
      by (simp add: specBucket_def latestIdx_sorted [OF s p] latestIdx_sorted [OF s q]
          B_def [symmetric] T_def [symmetric])
  next
    case False
    then have "length B = 0 \<or> length T = 0 \<or> \<not> length B - 1 < length T - 1" by arith
    with False show ?thesis
      by (auto simp: specBucket_def latestIdx_sorted [OF s p] latestIdx_sorted [OF s q]
          B_def [symmetric] T_def [symmetric])
  qed
  show "date (last B) < date (last T)" if b: "0 < length B" and bt: "length B < length T"
  proof -
    have i1: "length B - 1 < length srt" and i2: "length T - 1 < length srt"
      using lB lT b bt by auto
    have "P (date (srt ! (length B - 1)))"
      using filter_sorted_nth [OF s p i1] b by (simp add: B_def)
    moreover have "\<not> P (date (srt ! (length T - 1)))"
      using filter_sorted_nth [OF s p i2] bt by (simp add: B_def) 
    ultimately have "\<not> date (srt ! (length T - 1)) \<le> date (srt ! (length B - 1))"
      using p unfolding downward_def by blast
    moreover from b bt have "0 < length T" by linarith
    ultimately show ?thesis using lastB [OF b] lastT by simp
  qed
qed

lemma monthEntryOf_Inr:
  assumes "sorted (map date srt)"
  shows "monthEntryOf now srt i = Inr (monthEntryVal now srt i)"
proof -
  let ?B = "filter (\<lambda>r. date r < monthDate now i) srt"
  let ?T = "filter (\<lambda>r. date r \<le> monthEnd now i) srt"
  note core = bucket_core [OF assms downward_less [of "monthDate now i"]
      downward_le [of "monthEnd now i"]]
  show ?thesis
  proof (cases "0 < length ?B \<and> length ?B < length ?T")
    case True
    then have ne: "?B \<noteq> []" "?T \<noteq> []" by auto
    from True have lt: "date (last ?B) < date (last ?T)" using core(2) by blast
    then have pos: "0 < daysBetween (date (last ?B)) (date (last ?T))"
      by (simp add: daysBetween_pos)
    show ?thesis using True lt pos
      by (simp add: monthEntryOf_def monthEntryVal_def core(1) elem_last [OF ne(1)]
          elem_last [OF ne(2)] andThen_Inr rateBetween_def Let_def)
  next
    case False
    then show ?thesis
      by (auto simp: monthEntryOf_def monthEntryVal_def core(1) andThen_Inr)
  qed
qed

lemma weekEntryOf_Inr:
  assumes "sorted (map date srt)"
  shows "weekEntryOf now srt i = Inr (weekEntryVal now srt i)"
proof -
  let ?B = "filter (\<lambda>r. date r \<le> weekStart now i) srt"
  let ?T = "filter (\<lambda>r. date r \<le> weekEnd now i) srt"
  note core = bucket_core [OF assms downward_le [of "weekStart now i"]
      downward_le [of "weekEnd now i"]]
  show ?thesis
  proof (cases "0 < length ?B \<and> length ?B < length ?T")
    case True
    then have ne: "?B \<noteq> []" "?T \<noteq> []" by auto
    from True have lt: "date (last ?B) < date (last ?T)" using core(2) by blast
    then have pos: "0 < daysBetween (date (last ?B)) (date (last ?T))"
      by (simp add: daysBetween_pos)
    show ?thesis using True lt pos
      by (simp add: weekEntryOf_def weekEntryVal_def core(1) elem_last [OF ne(1)]
          elem_last [OF ne(2)] andThen_Inr rateBetween_def Let_def)
  next
    case False
    then show ?thesis
      by (auto simp: weekEntryOf_def weekEntryVal_def core(1) andThen_Inr)
  qed
qed

lemma monthlyLoop_Inr:
  assumes "sorted (map date srt)"
  shows "monthlyLoop now srt n acc
           = Inr (acc @ map (\<lambda>i. monthEntryVal now srt (int i)) (rev [0..<n]))"
  by (induction n arbitrary: acc) (simp_all add: monthEntryOf_Inr [OF assms] andThen_Inr)

lemma weeklyLoop_Inr:
  assumes "sorted (map date srt)"
  shows "weeklyLoop now srt n acc
           = Inr (acc @ map (\<lambda>i. weekEntryVal now srt (int i)) (rev [0..<n]))"
  by (induction n arbitrary: acc) (simp_all add: weekEntryOf_Inr [OF assms] andThen_Inr)

lemma statsOfSorted_Inr:
  assumes "sorted (map date srt)" "2 \<le> length srt"
  shows "statsOfSorted now srt = Inr (statsVal now srt)"
  by (simp only: statsOfSorted_def statsVal_def lastIntervalOf_Inr [OF assms(2)]
      yearStatsOf_Inr monthlyLoop_Inr [OF assms(1)] weeklyLoop_Inr [OF assms(1)]
      andThen_Inr append_Nil)

lemma sorted_sortByDate: "sorted (map date (sortByDate rs))"
  by (simp add: sortByDate_def)

lemma length_sortByDate: "length (sortByDate rs) = length rs"
  by (simp add: sortByDate_def)

lemma calculateStats_Inr:
  "calculateStats now rs =
     Inr (if length rs < 2 then noStats else statsVal now (sortByDate rs))"
  by (simp add: calculateStats_def statsOfSorted_Inr sorted_sortByDate length_sortByDate)

subsection \<open>Rounding\<close>



lemma round1_near: "\<bar>round1 x - x\<bar> \<le> 1 / 20 \<and> (\<exists>k::int. round1 x = of_int k / 10)"
proof -
  define n where "n = \<lfloor>x * 10 + 1 / 2\<rfloor>"
  have a: "of_int n \<le> x * 10 + 1 / 2" unfolding n_def by linarith
  have b: "x * 10 + 1 / 2 < of_int n + 1" unfolding n_def by linarith
  have "of_int n / 10 - x \<le> 1 / 20" using a by linarith
  moreover have "- (of_int n / 10 - x) \<le> 1 / 20" using b by linarith
  ultimately have "\<bar>of_int n / 10 - x\<bar> \<le> 1 / 20" by (simp only: abs_le_iff)
  then show ?thesis by (auto simp: round1_def Math_round_def n_def)
qed

subsection \<open>The entries of the two series\<close>




subsection \<open>When a bucket has a rate\<close>





subsection \<open>The readings a week apart\<close>



subsection \<open>The metadata of a reading is never read\<close>

lemma date_strip: "date (strip r) = date r"
  by (simp add: strip_def mkReading_def)

lemma val_strip: "val (strip r) = val r"
  by (simp add: strip_def mkReading_def)

lemma insort_strip:
  "insort_key date (strip x) (map strip xs) = map strip (insort_key date x xs)"
  by (induction xs) (simp_all add: date_strip)

lemma sortByDate_strip: "sortByDate (map strip rs) = map strip (sortByDate rs)"
  unfolding sortByDate_def by (induction rs) (simp_all add: insort_strip)

lemma filter_strip:
  "filter (\<lambda>r. P (date r)) (map strip xs) = map strip (filter (\<lambda>r. P (date r)) xs)"
  by (induction xs) (simp_all add: date_strip)

lemma latestIdx_strip: "latestIdx P (map strip srt) = latestIdx P srt"
proof -
  have "filter (\<lambda>j. P (date (map strip srt ! j))) [0..<length srt]
          = filter (\<lambda>j. P (date (srt ! j))) [0..<length srt]"
    by (rule filter_cong [OF refl]) (simp add: date_strip)
  then show ?thesis by (simp add: latestIdx_def)
qed

lemma rateBetween_strip: "rateBetween (strip a) (strip b) = rateBetween a b"
  by (simp add: rateBetween_def date_strip val_strip)

lemma specBucket_strip: "specBucket P Q (map strip srt) = specBucket P Q srt"
proof -
  have "rateBetween (map strip srt ! b) (map strip srt ! t) = rateBetween (srt ! b) (srt ! t)"
    if "latestIdx P srt = Some b" "latestIdx Q srt = Some t" for b t
  proof -
    from that have "b < length srt" "t < length srt" by (simp_all add: latestIdx_Some_iff)
    then show ?thesis by (simp add: rateBetween_strip)
  qed
  then show ?thesis
    by (simp add: specBucket_def latestIdx_strip split: option.splits)
qed

lemma lastIntervalVal_strip:
  "2 \<le> length srt \<Longrightarrow> lastIntervalVal (map strip srt) = lastIntervalVal srt"
proof -
  assume len: "2 \<le> length srt"
  then have ne: "srt \<noteq> []" by auto
  from len have i: "length srt - 2 < length srt" by linarith
  show ?thesis
    by (simp add: lastIntervalVal_def Let_def last_map [OF ne] nth_map [OF i] date_strip
        val_strip)
qed

lemma yearStatsVal_strip: "yearStatsVal now (map strip srt) = yearStatsVal now srt"
proof (cases "filter (\<lambda>r. startOfYear now \<le> date r) srt = []")
  case True
  then show ?thesis by (simp add: yearStatsVal_def Let_def filter_strip)
next
  case False
  then show ?thesis
    by (simp add: yearStatsVal_def Let_def filter_strip last_map hd_map date_strip val_strip)
qed

lemma statsVal_strip:
  "2 \<le> length srt \<Longrightarrow> statsVal now (map strip srt) = statsVal now srt"
  by (simp add: statsVal_def lastIntervalVal_strip yearStatsVal_strip monthEntryVal_def
      weekEntryVal_def specBucket_strip del: upt_Suc upt_rec_numeral)

lemma calculateStats_strip: "calculateStats now (map strip rs) = calculateStats now rs"
  by (simp add: calculateStats_Inr sortByDate_strip statsVal_strip length_sortByDate)

lemma map_strip_eq:
  "map date xs = map date ys \<Longrightarrow> map val xs = map val ys \<Longrightarrow> map strip xs = map strip ys"
proof (induction xs arbitrary: ys)
  case Nil
  then show ?case by simp
next
  case (Cons x xs)
  then obtain y ys' where ys: "ys = y # ys'" by (cases ys) auto
  with Cons.prems have "date x = date y" "val x = val y" "map date xs = map date ys'"
    "map val xs = map val ys'" by simp_all
  with Cons.IH [of ys'] ys show ?case by (simp add: strip_def)
qed

subsection \<open>The store after the call\<close>

lemma calculateStatsIn_eq:
  "calculateStatsIn now readings h =
     (calculateStats now (h ! readings),
      if length (h ! readings) < 2 then h else h @ [sortByDate (h ! readings)])"
  by (simp add: calculateStatsIn_def calculateStats_def spread_def sortInPlace_def
      sortByDate_def)

section \<open>The claims\<close>

subsection \<open>C1: the two endpoints of a bucket\<close>




subsection \<open>C2: fewer than two readings\<close>

text \<open>C2, as stated, asks for 12 monthly and 52 weekly entries, all without data,
  when the input has 0 or 1 readings. Counterexample: on the empty input the function
  returns at line 109, and both series are empty.\<close>

theorem C2_counterexample:
  "calculateStats (isoDate 2025 1 1) [] = Inr noStats \<and>
   length (st_monthlyData noStats) = 0 \<and> length (st_weeklyData noStats) = 0"
  by (simp add: calculateStats_def noStats_def)

text \<open>C2, amended: for every input with 0 or 1 readings the function returns, with
  \<open>lastInterval\<close> and \<open>yearStats\<close> unavailable (\<open>null\<close>) and with \<open>monthlyData\<close>
  and \<open>weeklyData\<close> both the empty sequence.\<close>

theorem C2_few_readings:
  "length rs < 2 \<Longrightarrow>
   calculateStats now rs =
     Inr \<lparr> st_lastInterval = None, st_yearStats = None,
           st_monthlyData = [], st_weeklyData = [] \<rparr>"
  by (simp add: calculateStats_def noStats_def)

text \<open>Witness for C2: the single reading of 2024-06-01, seen on 2024-06-02.\<close>

theorem C2_few_readings_witness:
  "length [mkReading (isoDate 2024 6 1) 5] < 2 \<and>
   calculateStats (isoDate 2024 6 2) [mkReading (isoDate 2024 6 1) 5] =
     Inr \<lparr> st_lastInterval = None, st_yearStats = None,
           st_monthlyData = [], st_weeklyData = [] \<rparr>"
  using C2_few_readings [of "[mkReading (isoDate 2024 6 1) 5]" "isoDate 2024 6 2"] by simp

subsection \<open>C3: one year between two readings\<close>



subsection \<open>C4: the last interval\<close>



subsection \<open>C5: the statistics of the year\<close>



subsection \<open>C6: spans without duration\<close>




subsection \<open>C7: the order of the input\<close>

text \<open>C7, as stated, holds of every permutation of every input. Counterexample: of
  three readings, two share the timestamp 2024-02-01 with the values 5 and 7; in one
  order of the input \<open>lastInterval\<close> shows 2000 litres, in the other -2000. The sort
  of line 118 compares timestamps only and is stable, so readings that share a
  timestamp stay in the order of the input.\<close>

theorem C7_counterexample:
  "mset shuffledScenario = mset shuffleScenario \<and>
   map_sum id (\<lambda>s. map_option li_liters (st_lastInterval s))
     (calculateStats (isoDate 2024 6 2) shuffleScenario) = Inr (Some 2000) \<and>
   map_sum id (\<lambda>s. map_option li_liters (st_lastInterval s))
     (calculateStats (isoDate 2024 6 2) shuffledScenario) = Inr (Some (- 2000))"
proof -
  have "mset shuffledScenario = mset shuffleScenario"
    by (simp add: shuffledScenario_def shuffleScenario_def)
  moreover have "map_sum id (\<lambda>s. map_option li_liters (st_lastInterval s))
     (calculateStats (isoDate 2024 6 2) shuffleScenario) = Inr (Some 2000)"
    by code_simp
  moreover have "map_sum id (\<lambda>s. map_option li_liters (st_lastInterval s))
     (calculateStats (isoDate 2024 6 2) shuffledScenario) = Inr (Some (- 2000))"
    by code_simp
  ultimately show ?thesis by blast
qed

text \<open>C7, amended: for every input in which any two readings that share a timestamp
  also share their value (in particular when all timestamps differ), and for every
  permutation of it, \<open>calculateStats\<close> with the same \<open>now\<close> returns the same result.\<close>

theorem C7_permutation:
  "mset xs = mset ys \<Longrightarrow>
   (\<forall>a\<in>set xs. \<forall>b\<in>set xs. date a = date b \<longrightarrow> val a = val b) \<Longrightarrow>
   calculateStats now xs = calculateStats now ys"
proof -
  assume m: "mset xs = mset ys"
    and v: "\<forall>a\<in>set xs. \<forall>b\<in>set xs. date a = date b \<longrightarrow> val a = val b"
  have inj: "inj_on date (set (map strip xs))"
  proof (rule inj_onI)
    fix p q assume "p \<in> set (map strip xs)" "q \<in> set (map strip xs)" and d: "date p = date q"
    then obtain a b where ab: "a \<in> set xs" "b \<in> set xs" "p = strip a" "q = strip b" by auto
    with d have "date a = date b" by (simp add: date_strip)
    with v ab have "val a = val b" by blast
    with \<open>date a = date b\<close> ab show "p = q" by (simp add: strip_def)
  qed
  have "mset (map strip xs) = mset (sort_key date (map strip ys))" using m by simp
  then have "sort_key date (map strip xs) = sort_key date (map strip ys)"
    using inj by (rule sort_key_inj_key_eq) simp
  moreover have "length xs = length ys" using m by (rule mset_eq_length)
  ultimately have "calculateStats now (map strip xs) = calculateStats now (map strip ys)"
    by (simp add: calculateStats_def sortByDate_def)
  then show ?thesis by (simp only: calculateStats_strip)
qed

text \<open>Witness for C7: the two readings of the year scenario and their reversal.\<close>

theorem C7_permutation_witness:
  "mset (rev yearScenario) = mset yearScenario \<and>
   rev yearScenario \<noteq> yearScenario \<and>
   distinct (map date (rev yearScenario)) \<and>
   calculateStats (isoDate 2025 1 1) (rev yearScenario)
     = calculateStats (isoDate 2025 1 1) yearScenario"
proof -
  have m: "mset (rev yearScenario) = mset yearScenario" by simp
  have n: "rev yearScenario \<noteq> yearScenario"
    by (simp add: yearScenario_def mkReading_def)
  have d: "distinct (map date (rev yearScenario))" by code_simp
  then have "inj_on date (set (rev yearScenario))" by (simp only: distinct_map)
  then have v: "\<forall>a\<in>set (rev yearScenario). \<forall>b\<in>set (rev yearScenario).
      date a = date b \<longrightarrow> val a = val b"
    by (auto dest: inj_onD)
  from C7_permutation [OF m v, of "isoDate 2025 1 1"] m n d show ?thesis by blast
qed

subsection \<open>C8: when every bucket has a value\<close>




subsection \<open>C9: the caller's array\<close>

text \<open>C9: the call leaves the caller's array as it was, the same readings in the
  same order, and every other array of the store too; it returns what the function on
  values returns. With two readings or more the only change of the store is one new
  array, the sorted copy: sorted ascending by timestamp, a permutation of the input,
  with the readings of one timestamp in the order of the input (stable). The
  stages read that array and leave it as the sort left it. The readings themselves are
  values here: no line of \<open>calculateStats\<close> writes a field of a reading.\<close>

theorem C9_frame:
  "readings < length h \<Longrightarrow>
   (\<exists>res h'. calculateStatsIn now readings h = (res, h') \<and>
      res = calculateStats now (h ! readings) \<and>
      length h \<le> length h' \<and>
      take (length h) h' = h \<and>
      h' ! readings = h ! readings \<and>
      (2 \<le> length (h ! readings) \<longrightarrow>
         h' = h @ [sortByDate (h ! readings)] \<and>
         sorted (map date (sortByDate (h ! readings))) \<and>
         mset (sortByDate (h ! readings)) = mset (h ! readings) \<and>
         (\<forall>t. filter (\<lambda>r. date r = t) (sortByDate (h ! readings))
                = filter (\<lambda>r. date r = t) (h ! readings))))"
proof -
  assume r: "readings < length h"
  let ?h' = "if length (h ! readings) < 2 then h else h @ [sortByDate (h ! readings)]"
  have "calculateStatsIn now readings h = (calculateStats now (h ! readings), ?h')"
    by (rule calculateStatsIn_eq)
  moreover have "length h \<le> length ?h'" by simp
  moreover have "take (length h) ?h' = h" by simp
  moreover have "?h' ! readings = h ! readings" using r by (simp add: nth_append)
  moreover have "2 \<le> length (h ! readings) \<longrightarrow> ?h' = h @ [sortByDate (h ! readings)]"
    by simp
  moreover have "sorted (map date (sortByDate (h ! readings)))" by (rule sorted_sortByDate)
  moreover have "mset (sortByDate (h ! readings)) = mset (h ! readings)"
    by (simp add: sortByDate_def)
  moreover have "\<forall>t. filter (\<lambda>r. date r = t) (sortByDate (h ! readings))
                = filter (\<lambda>r. date r = t) (h ! readings)"
    by (simp add: sortByDate_def sort_key_stable)
  ultimately show ?thesis by blast
qed

text \<open>Witness for C9: a store that holds the two readings of January 2024, the
  later one first.\<close>

theorem C9_frame_witness:
  "(0::nat) < length [rev januaryScenario] \<and>
   2 \<le> length ([rev januaryScenario] ! 0) \<and>
   fst (calculateStatsIn (isoDate 2024 3 1) 0 [rev januaryScenario])
     = calculateStats (isoDate 2024 3 1) (rev januaryScenario) \<and>
   snd (calculateStatsIn (isoDate 2024 3 1) 0 [rev januaryScenario])
     = [rev januaryScenario, januaryScenario]"
proof -
  have a: "(0::nat) < length [rev januaryScenario]" by simp
  have b: "2 \<le> length ([rev januaryScenario] ! 0)" by (simp add: januaryScenario_def)
  have c: "sortByDate (rev januaryScenario) = januaryScenario" by code_simp
  from C9_frame [OF a, of "isoDate 2024 3 1"] obtain res h' where
    e: "calculateStatsIn (isoDate 2024 3 1) 0 [rev januaryScenario] = (res, h')"
    and f: "res = calculateStats (isoDate 2024 3 1) ([rev januaryScenario] ! 0)"
    and g: "2 \<le> length ([rev januaryScenario] ! 0) \<longrightarrow>
         h' = [rev januaryScenario] @ [sortByDate ([rev januaryScenario] ! 0)]"
    by blast
  from g b c have "h' = [rev januaryScenario, januaryScenario]" by simp
  with a b e f show ?thesis by simp
qed

subsection \<open>C10: the metadata\<close>

text \<open>C10: two inputs that agree, position by position, on the timestamp and the
  value of every reading give the same result with the same \<open>now\<close>, whatever their
  identifiers, confidences, notes and images.\<close>

theorem C10_metadata:
  "map date xs = map date ys \<Longrightarrow> map val xs = map val ys \<Longrightarrow>
   calculateStats now xs = calculateStats now ys"
proof -
  assume "map date xs = map date ys" "map val xs = map val ys"
  then have "map strip xs = map strip ys" by (rule map_strip_eq)
  then have "calculateStats now (map strip xs) = calculateStats now (map strip ys)" by simp
  then show ?thesis by (simp only: calculateStats_strip)
qed

text \<open>Witness for C10: the two readings of January 2024 with and without their
  metadata.\<close>

theorem C10_metadata_witness:
  "map date storedScenario = map date januaryScenario \<and>
   map val storedScenario = map val januaryScenario \<and>
   map rid storedScenario \<noteq> map rid januaryScenario \<and>
   map confidence storedScenario \<noteq> map confidence januaryScenario \<and>
   map rnotes storedScenario \<noteq> map rnotes januaryScenario \<and>
   map image storedScenario \<noteq> map image januaryScenario \<and>
   calculateStats (isoDate 2024 3 1) storedScenario
     = calculateStats (isoDate 2024 3 1) januaryScenario"
proof -
  have d: "map date storedScenario = map date januaryScenario"
    by (simp add: storedScenario_def januaryScenario_def mkReading_def)
  have v: "map val storedScenario = map val januaryScenario"
    by (simp add: storedScenario_def januaryScenario_def mkReading_def)
  have m: "map rid storedScenario \<noteq> map rid januaryScenario"
    "map confidence storedScenario \<noteq> map confidence januaryScenario"
    "map rnotes storedScenario \<noteq> map rnotes januaryScenario"
    "map image storedScenario \<noteq> map image januaryScenario"
    by (simp_all add: storedScenario_def januaryScenario_def mkReading_def)
  from C10_metadata [OF d v, of "isoDate 2024 3 1"] d v m show ?thesis by blast
qed

end
